theory Spec2Isabelle
  imports Main
begin

section \<open>Python strings\<close>

text \<open>
  A Python \<open>str\<close> is a sequence of Unicode code points.  It is modelled as a list of
  natural numbers, one per code point, so that \<open>ord\<close> is the identity and \<open>len\<close> is
  \<open>length\<close>.  String literals of the source are written \<open>str ''...''\<close>.
\<close>

type_synonym ustring = "nat list"

definition str :: "string \<Rightarrow> ustring" where
  "str s = map of_char s"

text \<open>
  \<open>char.isspace()\<close> for a one-character string: the code points whose general category
  is Zs or whose bidirectional class is WS, B or S.  \<open>str.split()\<close> without arguments
  splits on the same set.
\<close>

definition isspace :: "nat \<Rightarrow> bool" where
  "isspace c \<longleftrightarrow>
     (0x09 \<le> c \<and> c \<le> 0x0D) \<or> (0x1C \<le> c \<and> c \<le> 0x1F) \<or> c = 0x20 \<or> c = 0x85 \<or>
     c = 0xA0 \<or> c = 0x1680 \<or> (0x2000 \<le> c \<and> c \<le> 0x200A) \<or> c = 0x2028 \<or>
     c = 0x2029 \<or> c = 0x202F \<or> c = 0x205F \<or> c = 0x3000"

text \<open>\<open>s.startswith(p)\<close>.\<close>

definition startswith :: "ustring \<Rightarrow> ustring \<Rightarrow> bool" where
  "startswith s p \<longleftrightarrow> take (length p) s = p"

text \<open>
  Slice bounds: \<open>s[:i]\<close> and \<open>s[i:]\<close> add \<open>len(s)\<close> to a negative \<open>i\<close> and clamp the
  result to \<open>0 .. len(s)\<close>.
\<close>

definition slice_index :: "ustring \<Rightarrow> int \<Rightarrow> nat" where
  "slice_index s i =
     (if i < 0 then nat (max 0 (i + int (length s))) else min (nat i) (length s))"

definition slice_to :: "ustring \<Rightarrow> int \<Rightarrow> ustring" where
  "slice_to s i = take (slice_index s i) s"

definition slice_from :: "ustring \<Rightarrow> int \<Rightarrow> ustring" where
  "slice_from s i = drop (slice_index s i) s"

text \<open>\<open>s.split(sep)\<close> for a one-character separator: every occurrence splits.\<close>

fun split_sep :: "nat \<Rightarrow> ustring \<Rightarrow> ustring list" where
  "split_sep sep [] = [[]]"
| "split_sep sep (c # cs) =
     (if c = sep then [] # split_sep sep cs
      else (case split_sep sep cs of
              [] \<Rightarrow> [[c]]
            | w # ws \<Rightarrow> (c # w) # ws))"

text \<open>\<open>xs[i]\<close> for \<open>i \<ge> 0\<close>; \<open>None\<close> stands for IndexError.\<close>

definition py_index :: "'a list \<Rightarrow> nat \<Rightarrow> 'a option" where
  "py_index xs i = (if i < length xs then Some (xs ! i) else None)"

text \<open>
  \<open>s.split()\<close>: the maximal runs of non-whitespace characters, in order; leading,
  trailing and repeated whitespace produces no empty word.
\<close>

function split_ws :: "ustring \<Rightarrow> ustring list" where
  "split_ws s =
     (case dropWhile isspace s of
        [] \<Rightarrow> []
      | c # cs \<Rightarrow>
          takeWhile (\<lambda>x. \<not> isspace x) (c # cs)
            # split_ws (dropWhile (\<lambda>x. \<not> isspace x) (c # cs)))"
  by pat_completeness auto
termination
proof (relation "measure length", goal_cases)
  case 1
  show ?case by simp
next
  case (2 s c cs)
  have "length (dropWhile (\<lambda>x. \<not> isspace x) (c # cs)) \<le> length (c # cs)"
    by (rule length_dropWhile_le)
  also have "\<dots> = length (dropWhile isspace s)"
    using 2 by simp
  finally have le: "length (dropWhile (\<lambda>x. \<not> isspace x) (c # cs)) \<le> length s"
    using length_dropWhile_le [of isspace s] by linarith
  have "\<not> isspace c"
    using 2 hd_dropWhile [of isspace s] by simp
  then have "length (dropWhile (\<lambda>x. \<not> isspace x) (c # cs)) \<le> length cs"
    by (simp add: length_dropWhile_le)
  moreover have "length cs < length s"
    using 2 length_dropWhile_le [of isspace s] by simp
  ultimately show ?case by simp
qed

declare split_ws.simps [simp del]

text \<open>
  \<open>s.find(sub, start)\<close>: the lowest index \<open>i \<ge> start\<close> with \<open>s[i:i+len(sub)] == sub\<close>,
  or \<open>-1\<close>.  \<open>start\<close> is adjusted like a slice bound; a start beyond the end finds
  nothing.
\<close>

fun find_at :: "ustring \<Rightarrow> ustring \<Rightarrow> nat \<Rightarrow> int" where
  "find_at sub [] k = (if sub = [] then int k else - 1)"
| "find_at sub (c # cs) k =
     (if startswith (c # cs) sub then int k else find_at sub cs (k + 1))"

definition py_find :: "ustring \<Rightarrow> ustring \<Rightarrow> int \<Rightarrow> int" where
  "py_find s sub start =
     (if int (length s) < start then - 1
      else find_at sub (drop (slice_index s start) s) (slice_index s start))"

text \<open>\<open>chr(n)\<close>: raises ValueError (\<open>None\<close>) outside \<open>0 .. 0x10FFFF\<close>.\<close>

definition py_chr :: "nat \<Rightarrow> nat option" where
  "py_chr n = (if n \<le> 0x10FFFF then Some n else None)"

text \<open>
  \<open>int(byte, 2)\<close> on a string of the digits \<open>0\<close> and \<open>1\<close>, the only strings
  \<open>decode_zero_width\<close> passes to it; \<open>None\<close> stands for ValueError.
\<close>

definition py_int2 :: "ustring \<Rightarrow> nat option" where
  "py_int2 digits =
     (if digits \<noteq> [] \<and> list_all (\<lambda>d. d = 48 \<or> d = 49) digits
      then Some (foldl (\<lambda>acc d. 2 * acc + (d - 48)) 0 digits)
      else None)"

text \<open>
  \<open>format(n, '08b')\<close>: the binary digits of \<open>n\<close>, most significant first, padded on the
  left with \<open>0\<close> to a width of at least 8.  A number above 255 has more than 8 digits
  and all of them are kept.
\<close>

fun bin :: "nat \<Rightarrow> ustring" where
  "bin n = (if n < 2 then [48 + n] else bin (n div 2) @ [48 + n mod 2])"

declare bin.simps [simp del]

definition format_08b :: "nat \<Rightarrow> ustring" where
  "format_08b n = replicate (8 - length (bin n)) 48 @ bin n"


section \<open>steg/algorithms.py\<close>

definition ZERO_WIDTH_ITEMS :: "(nat \<times> nat) list" where
  "ZERO_WIDTH_ITEMS = [(48, 0x200B), (49, 0x200C)]"

definition ZERO_WIDTH_MAP :: "nat \<rightharpoonup> nat" where
  "ZERO_WIDTH_MAP = map_of ZERO_WIDTH_ITEMS"

text \<open>\<open>{val: key for key, val in ZERO_WIDTH_MAP.items()}\<close>; a later item would win.\<close>

definition ZERO_WIDTH_DECODE :: "nat \<rightharpoonup> nat" where
  "ZERO_WIDTH_DECODE = map_of (rev (map (\<lambda>(key, val). (val, key)) ZERO_WIDTH_ITEMS))"

definition TAG_BASE :: nat where
  "TAG_BASE = 0xE0000"

text \<open>\<open>d.get(k, '')\<close> for a dictionary of one-character strings.\<close>

definition get_or_empty :: "(nat \<rightharpoonup> nat) \<Rightarrow> nat \<Rightarrow> ustring" where
  "get_or_empty d k = (case d k of None \<Rightarrow> [] | Some v \<Rightarrow> [v])"

definition encode_zero_width :: "ustring \<Rightarrow> ustring" where
  "encode_zero_width secret_message =
     (let binary_secret = concat (map format_08b secret_message)
      in concat (map (get_or_empty ZERO_WIDTH_MAP) binary_secret))"

fun encode_tag :: "ustring \<Rightarrow> ustring" where
  "encode_tag [] = []"
| "encode_tag (char # rest) =
     (if char \<le> 0x7F then [TAG_BASE + char] else []) @ encode_tag rest"

text \<open>
  The loop of \<open>decode_zero_width\<close> over \<open>range(0, len(binary_secret), 8)\<close>, with the
  string built so far as an accumulator.
\<close>

function decode_zero_width_loop :: "ustring \<Rightarrow> nat \<Rightarrow> ustring \<Rightarrow> ustring" where
  "decode_zero_width_loop binary_secret i secret_message =
     (if i < length binary_secret then
        (let byte = take 8 (drop i binary_secret)
         in decode_zero_width_loop binary_secret (i + 8)
              (if length byte = 8 then
                 (case py_int2 byte of
                    None \<Rightarrow> secret_message
                  | Some n \<Rightarrow>
                      (case py_chr n of
                         None \<Rightarrow> secret_message
                       | Some ch \<Rightarrow> secret_message @ [ch]))
               else secret_message))
      else secret_message)"
  by pat_completeness auto
termination
  by (relation "measure (\<lambda>(binary_secret, i, secret_message). length binary_secret - i)") auto

declare decode_zero_width_loop.simps [simp del]

definition decode_zero_width :: "ustring \<Rightarrow> ustring" where
  "decode_zero_width encoded_text =
     (let binary_secret = concat (map (get_or_empty ZERO_WIDTH_DECODE) encoded_text)
      in decode_zero_width_loop binary_secret 0 [])"

fun decode_tag :: "ustring \<Rightarrow> ustring" where
  "decode_tag [] = []"
| "decode_tag (char_code # rest) =
     (if TAG_BASE \<le> char_code \<and> char_code \<le> TAG_BASE + 0x7F
      then [char_code - TAG_BASE] else []) @ decode_tag rest"


section \<open>steg/injection.py\<close>

text \<open>
  Every failure of the resolver and of the orchestrator is a Python \<open>ValueError\<close>; the
  constructors tell the messages apart:
  \<^item> \<open>NoWhitespaceFound\<close>: "No whitespace found for first-space injection";
  \<^item> \<open>InvalidWordNumber\<close>: "Invalid word number in ..." (the spec's WordIndexOutOfRange);
  \<^item> \<open>InvalidCharPosition\<close>: "Invalid character position in ..." (CharOffsetOutOfRange);
  \<^item> \<open>UnknownInjectionPoint\<close>: "Unknown injection point: ...";
  \<^item> \<open>EmptyVisibleText\<close>, \<open>VisibleTextTooLong\<close>, \<open>SecretTooLong\<close>: the input checks of
    \<open>encode\<close>;
  \<^item> \<open>UnknownEncodingMethod\<close>, \<open>UnknownDecodingMethod\<close>: "Unknown encoding method ..." and
    "Unknown decoding method ..." (the spec's UnknownMethod).
  \<open>IndexError\<close> is the one exception that is not a ValueError.
\<close>

datatype error =
    EmptyVisibleText
  | VisibleTextTooLong
  | SecretTooLong
  | NoWhitespaceFound
  | InvalidWordNumber
  | InvalidCharPosition
  | UnknownInjectionPoint
  | UnknownEncodingMethod
  | UnknownDecodingMethod
  | IndexError

text \<open>The \<open>first-space\<close> loop over \<open>enumerate(visible_text)\<close>, from index \<open>i\<close>.\<close>

fun first_space_loop :: "nat \<Rightarrow> ustring \<Rightarrow> nat option" where
  "first_space_loop i [] = None"
| "first_space_loop i (char # rest) =
     (if isspace char then Some (i + 1) else first_space_loop (i + 1) rest)"

text \<open>
  The \<open>word-\<close> loop \<open>for i in range(word_num)\<close>, over the words \<open>words[0]\<close> ..
  \<open>words[word_num - 1]\<close>.
\<close>

fun word_loop :: "ustring \<Rightarrow> ustring list \<Rightarrow> int \<Rightarrow> int" where
  "word_loop visible_text [] word_end = word_end"
| "word_loop visible_text (w # ws) word_end =
     word_loop visible_text ws (py_find visible_text w word_end + int (length w))"

text \<open>
  \<open>find_injection_point\<close>.  The built-in \<open>int(...)\<close> that parses the number after the
  dash is the parameter \<open>py_int\<close>; \<open>None\<close> stands for its ValueError.  In the \<open>word-\<close>
  branch every ValueError and IndexError of the \<open>try\<close> block, the out-of-range one
  included, is caught and raised again as "Invalid word number"; the \<open>char-\<close> branch
  catches ValueError only.
\<close>

definition find_injection_point ::
    "(ustring \<Rightarrow> int option) \<Rightarrow> ustring \<Rightarrow> ustring \<Rightarrow> error + int" where
  "find_injection_point py_int visible_text injection_point =
     (if injection_point = str ''first-space'' then
        (case first_space_loop 0 visible_text of
           Some pos \<Rightarrow> Inr (int pos)
         | None \<Rightarrow> Inl NoWhitespaceFound)
      else if injection_point = str ''end'' then Inr (int (length visible_text))
      else if startswith injection_point (str ''word-'') then
        (case py_index (split_sep 45 injection_point) 1 of
           None \<Rightarrow> Inl InvalidWordNumber
         | Some field \<Rightarrow>
             (case py_int field of
                None \<Rightarrow> Inl InvalidWordNumber
              | Some word_num \<Rightarrow>
                  (let words = split_ws visible_text
                   in if word_num < 1 \<or> word_num > int (length words)
                      then Inl InvalidWordNumber
                      else Inr (word_loop visible_text (take (nat word_num) words) 0))))
      else if startswith injection_point (str ''char-'') then
        (case py_index (split_sep 45 injection_point) 1 of
           None \<Rightarrow> Inl IndexError
         | Some field \<Rightarrow>
             (case py_int field of
                None \<Rightarrow> Inl InvalidCharPosition
              | Some char_pos \<Rightarrow>
                  if char_pos < 0 \<or> char_pos > int (length visible_text)
                  then Inl InvalidCharPosition
                  else Inr char_pos))
      else Inl UnknownInjectionPoint)"


section \<open>steg/core.py\<close>

definition MAX_SECRET_LENGTH :: nat where
  "MAX_SECRET_LENGTH = 10000"

definition MAX_VISIBLE_LENGTH :: nat where
  "MAX_VISIBLE_LENGTH = 100000"

text \<open>
  \<open>encode\<close>.  The warning printed for skipped characters in TAG mode changes no result
  and is left out.
\<close>

definition encode ::
    "(ustring \<Rightarrow> int option) \<Rightarrow> ustring \<Rightarrow> ustring \<Rightarrow> ustring \<Rightarrow> ustring \<Rightarrow> error + ustring" where
  "encode py_int visible_text secret_message method injection_point =
     (if visible_text = [] then Inl EmptyVisibleText
      else if length visible_text > MAX_VISIBLE_LENGTH then Inl VisibleTextTooLong
      else if length secret_message > MAX_SECRET_LENGTH then Inl SecretTooLong
      else
        (case find_injection_point py_int visible_text injection_point of
           Inl e \<Rightarrow> Inl e
         | Inr inject_pos \<Rightarrow>
             (if method = str ''zero-width'' then
                Inr (slice_to visible_text inject_pos @ encode_zero_width secret_message
                       @ slice_from visible_text inject_pos)
              else if method = str ''tag'' then
                Inr (slice_to visible_text inject_pos @ encode_tag secret_message
                       @ slice_from visible_text inject_pos)
              else Inl UnknownEncodingMethod)))"

text \<open>\<open>decode\<close>; for \<open>auto\<close> it calls itself with the two method names.\<close>

function decode :: "ustring \<Rightarrow> ustring \<Rightarrow> error + ustring" where
  "decode text_with_hidden_message method =
     (if method = str ''auto'' then
        (case decode text_with_hidden_message (str ''zero-width'') of
           Inl e \<Rightarrow> Inl e
         | Inr zero_width_result \<Rightarrow>
             (case decode text_with_hidden_message (str ''tag'') of
                Inl e \<Rightarrow> Inl e
              | Inr tag_result \<Rightarrow>
                  Inr (if zero_width_result \<noteq> [] then zero_width_result else tag_result)))
      else if method = str ''zero-width'' then Inr (decode_zero_width text_with_hidden_message)
      else if method = str ''tag'' then Inr (decode_tag text_with_hidden_message)
      else Inl UnknownDecodingMethod)"
  by pat_completeness auto
termination
  by (relation "measure (\<lambda>(text_with_hidden_message, method).
                   if method = str ''auto'' then 1 else 0)")
     (auto simp: str_def)

declare decode.simps [simp del]


section \<open>Notions used to state the properties\<close>

text \<open>
  The carrier alphabet of a method: for \<open>zero-width\<close> the characters that
  \<open>ZERO_WIDTH_DECODE\<close> maps to a bit (the values of \<open>ZERO_WIDTH_MAP\<close>), for \<open>tag\<close> the
  range \<open>TAG_BASE .. TAG_BASE + 0x7F\<close> that \<open>decode_tag\<close> reads.
\<close>

definition is_carrier :: "ustring \<Rightarrow> nat \<Rightarrow> bool" where
  "is_carrier method c \<longleftrightarrow>
     (method = str ''zero-width'' \<and> ZERO_WIDTH_DECODE c \<noteq> None) \<or>
     (method = str ''tag'' \<and> TAG_BASE \<le> c \<and> c \<le> TAG_BASE + 0x7F)"

text \<open>Removing every carrier character of the method from a text.\<close>

definition strip_carrier :: "ustring \<Rightarrow> ustring \<Rightarrow> ustring" where
  "strip_carrier method s = filter (\<lambda>c. \<not> is_carrier method c) s"

text \<open>A text that holds no carrier character of the method.\<close>

definition carrier_free :: "ustring \<Rightarrow> ustring \<Rightarrow> bool" where
  "carrier_free method s \<longleftrightarrow> list_all (\<lambda>c. \<not> is_carrier method c) s"

text \<open>
  A parser for non-empty strings of the ASCII digits \<open>0\<close> .. \<open>9\<close>, on which it agrees
  with Python's \<open>int\<close>.  It stands for \<open>py_int\<close> where a property is evaluated on a
  concrete injection point such as \<open>word-2\<close>.
\<close>

definition ascii_int :: "ustring \<Rightarrow> int option" where
  "ascii_int s =
     (if s \<noteq> [] \<and> list_all (\<lambda>d. 48 \<le> d \<and> d \<le> 57) s
      then Some (int (foldl (\<lambda>acc d. 10 * acc + (d - 48)) 0 s))
      else None)"


section \<open>Auxiliary notions of the proofs\<close>

text \<open>The number that a string of binary digits denotes, most significant digit first.\<close>

definition bits_value :: "ustring \<Rightarrow> nat" where
  "bits_value ds = foldl (\<lambda>acc d. 2 * acc + (d - 48)) 0 ds"


section \<open>Evaluation on concrete inputs\<close>

lemma replicate_numeral: "replicate (numeral k) x = x # replicate (pred_numeral k) x"
  by (simp add: numeral_eq_Suc)

lemmas eval_defs =
  replicate_numeral str_def isspace_def startswith_def slice_index_def slice_to_def
  slice_from_def py_index_def split_ws.simps py_find_def py_chr_def py_int2_def bin.simps
  format_08b_def ZERO_WIDTH_ITEMS_def ZERO_WIDTH_MAP_def ZERO_WIDTH_DECODE_def TAG_BASE_def
  get_or_empty_def encode_zero_width_def decode_zero_width_loop.simps decode_zero_width_def
  is_carrier_def strip_carrier_def carrier_free_def ascii_int_def Let_def


section \<open>The orchestrator's decode\<close>

lemma str_neqs:
  "str ''auto'' \<noteq> str ''zero-width''"
  "str ''auto'' \<noteq> str ''tag''"
  "str ''zero-width'' \<noteq> str ''tag''"
  by (simp_all add: str_def)

lemma decode_zw: "decode t (str ''zero-width'') = Inr (decode_zero_width t)"
  using str_neqs by (simp add: decode.simps [of t "str ''zero-width''"])

lemma decode_tg: "decode t (str ''tag'') = Inr (decode_tag t)"
  using str_neqs by (simp add: decode.simps [of t "str ''tag''"])

lemma decode_au:
  "decode t (str ''auto'') =
     Inr (if decode_zero_width t \<noteq> [] then decode_zero_width t else decode_tag t)"
  by (simp add: decode.simps [of t "str ''auto''"] decode_zw decode_tg)

lemma decode_other:
  "m \<noteq> str ''auto'' \<Longrightarrow> m \<noteq> str ''zero-width'' \<Longrightarrow> m \<noteq> str ''tag'' \<Longrightarrow>
     decode t m = Inl UnknownDecodingMethod"
  by (simp add: decode.simps [of t m])

text \<open>
  C4.  For every input text \<open>t\<close>, \<open>decode(t, "auto")\<close> is the result of the zero-width
  decoder over the whole text whenever that result is non-empty, and the result of the
  TAG decoder (possibly empty) otherwise: the zero-width result has priority, whatever
  the TAG decoder finds.
\<close>

theorem decode_auto_priority:
  "decode t (str ''auto'') =
     (if decode_zero_width t \<noteq> [] then decode t (str ''zero-width'')
      else decode t (str ''tag''))
   \<and> decode t (str ''zero-width'') = Inr (decode_zero_width t)
   \<and> decode t (str ''tag'') = Inr (decode_tag t)"
  by (simp add: decode_au decode_zw decode_tg)

text \<open>
  A text that carries \<open>a\<close> in zero-width characters and \<open>b\<close> in TAG characters decodes
  to \<open>a\<close> under \<open>auto\<close>; with ordinary text in place of the zero-width carrier it
  decodes to \<open>b\<close>.
\<close>

theorem decode_auto_priority_witness:
  "decode (encode_zero_width (str ''a'') @ encode_tag (str ''b'')) (str ''auto'')
     = Inr (str ''a'')
   \<and> decode (encode_zero_width (str ''a'') @ encode_tag (str ''b'')) (str ''tag'')
     = Inr (str ''b'')
   \<and> decode (str ''x'' @ encode_tag (str ''b'')) (str ''auto'') = Inr (str ''b'')"
proof -
  have a: "decode_zero_width (encode_zero_width (str ''a'') @ encode_tag (str ''b'')) = str ''a''"
    by (simp add: eval_defs)
  have b: "decode_tag (encode_zero_width (str ''a'') @ encode_tag (str ''b'')) = str ''b''"
    by (simp add: eval_defs)
  have c: "decode_zero_width (str ''x'' @ encode_tag (str ''b'')) = []"
    by (simp add: eval_defs)
  have d: "decode_tag (str ''x'' @ encode_tag (str ''b'')) = str ''b''"
    by (simp add: eval_defs)
  have e: "str ''a'' \<noteq> []"
    by (simp add: str_def)
  have "decode (encode_zero_width (str ''a'') @ encode_tag (str ''b'')) (str ''auto'')
          = Inr (str ''a'')"
    using decode_auto_priority [of "encode_zero_width (str ''a'') @ encode_tag (str ''b'')"]
    by (simp only: a e if_True simp_thms)
  moreover have "decode (encode_zero_width (str ''a'') @ encode_tag (str ''b'')) (str ''tag'')
          = Inr (str ''b'')"
    using decode_auto_priority [of "encode_zero_width (str ''a'') @ encode_tag (str ''b'')"]
    by (simp only: b)
  moreover have "decode (str ''x'' @ encode_tag (str ''b'')) (str ''auto'') = Inr (str ''b'')"
    using decode_auto_priority [of "str ''x'' @ encode_tag (str ''b'')"]
    by (simp only: c d simp_thms if_False)
  ultimately show ?thesis by blast
qed

section \<open>The two codecs\<close>

lemma get_decode:
  "get_or_empty ZERO_WIDTH_DECODE c = (if c = 0x200B then [48] else if c = 0x200C then [49] else [])"
  by (simp add: get_or_empty_def ZERO_WIDTH_DECODE_def ZERO_WIDTH_ITEMS_def)

lemma get_map:
  "get_or_empty ZERO_WIDTH_MAP b = (if b = 48 then [0x200B] else if b = 49 then [0x200C] else [])"
  by (simp add: get_or_empty_def ZERO_WIDTH_MAP_def ZERO_WIDTH_ITEMS_def)

lemma is_carrier_zw: "is_carrier (str ''zero-width'') c \<longleftrightarrow> c = 0x200B \<or> c = 0x200C"
  using str_neqs by (auto simp: is_carrier_def ZERO_WIDTH_DECODE_def ZERO_WIDTH_ITEMS_def)

lemma is_carrier_tag: "is_carrier (str ''tag'') c \<longleftrightarrow> TAG_BASE \<le> c \<and> c \<le> TAG_BASE + 0x7F"
  using str_neqs by (auto simp: is_carrier_def)

subsection \<open>The TAG codec\<close>

lemma decode_tag_append: "decode_tag (xs @ ys) = decode_tag xs @ decode_tag ys"
  by (induction xs) auto

lemma decode_tag_bound: "\<forall>c \<in> set (decode_tag t). c \<le> 0x7F"
  by (induction t) auto

lemma decode_tag_free: "carrier_free (str ''tag'') v \<Longrightarrow> decode_tag v = []"
  by (induction v) (auto simp: carrier_free_def is_carrier_tag)

lemma decode_encode_tag: "list_all (\<lambda>c. c \<le> 0x7F) s \<Longrightarrow> decode_tag (encode_tag s) = s"
  by (induction s) (auto simp: TAG_BASE_def)

lemma strip_encode_tag: "strip_carrier (str ''tag'') (encode_tag s) = []"
  by (induction s) (auto simp: strip_carrier_def is_carrier_tag)

lemma strip_free: "carrier_free m v \<Longrightarrow> strip_carrier m v = v"
  by (induction v) (auto simp: strip_carrier_def carrier_free_def)

lemma strip_append: "strip_carrier m (xs @ ys) = strip_carrier m xs @ strip_carrier m ys"
  by (simp add: strip_carrier_def)

lemma carrier_free_take: "carrier_free m v \<Longrightarrow> carrier_free m (take n v)"
  unfolding carrier_free_def list_all_iff by (auto dest: in_set_takeD)

lemma carrier_free_drop: "carrier_free m v \<Longrightarrow> carrier_free m (drop n v)"
  unfolding carrier_free_def list_all_iff by (auto dest: in_set_dropD)

subsection \<open>Binary digits\<close>


lemma bin_small: "n < 2 \<Longrightarrow> bin n = [48 + n]"
  by (simp add: bin.simps [of n])

lemma bin_step: "\<not> n < 2 \<Longrightarrow> bin n = bin (n div 2) @ [48 + n mod 2]"
  by (simp add: bin.simps [of n])

lemma bin_digits: "list_all (\<lambda>d. d = 48 \<or> d = 49) (bin n)"
proof (induction n rule: bin.induct)
  case (1 n)
  show ?case
  proof (cases "n < 2")
    case True
    then show ?thesis by (auto simp: bin_small)
  next
    case False
    have "n mod 2 = 0 \<or> n mod 2 = 1" by arith
    with False 1 show ?thesis by (auto simp: bin_step)
  qed
qed

lemma bin_nonempty: "bin n \<noteq> []"
  by (cases "n < 2") (simp_all add: bin_small bin_step)

lemma bits_value_snoc: "bits_value (ds @ [d]) = 2 * bits_value ds + (d - 48)"
  by (simp add: bits_value_def)

lemma bits_value_bin: "bits_value (bin n) = n"
proof (induction n rule: bin.induct)
  case (1 n)
  show ?case
  proof (cases "n < 2")
    case True
    then show ?thesis by (simp add: bin_small bits_value_def)
  next
    case False
    with 1 have "bits_value (bin (n div 2)) = n div 2" by simp
    with False show ?thesis by (simp add: bin_step bits_value_snoc)
  qed
qed

lemma bits_value_zeros: "foldl (\<lambda>acc d. 2 * acc + (d - 48)) 0 (replicate k 48 @ ds) = bits_value ds"
  by (induction k) (simp_all add: bits_value_def)

lemma length_bin_le: "n < 2 ^ k \<Longrightarrow> 0 < k \<Longrightarrow> length (bin n) \<le> k"
proof (induction n arbitrary: k rule: bin.induct)
  case (1 n)
  show ?case
  proof (cases "n < 2")
    case True
    with 1 show ?thesis by (simp add: bin_small)
  next
    case False
    obtain j where k: "k = Suc j" using 1(3) by (cases k) auto
    from False 1(2) k have j: "0 < j" by (cases j) auto
    from 1(2) k have "n div 2 < 2 ^ j" by simp
    with 1(1) False j have "length (bin (n div 2)) \<le> j" by simp
    with False k show ?thesis by (simp add: bin_step)
  qed
qed

lemma length_bin_gt: "2 ^ k \<le> n \<Longrightarrow> k < length (bin n)"
proof (induction n arbitrary: k rule: bin.induct)
  case (1 n)
  show ?case
  proof (cases "n < 2")
    case True
    have "k = 0"
    proof (rule ccontr)
      assume "k \<noteq> 0"
      then have "(2::nat) ^ 1 \<le> 2 ^ k" by (intro power_increasing) auto
      with 1(2) True show False by simp
    qed
    with True show ?thesis by (simp add: bin_small)
  next
    case False
    show ?thesis
    proof (cases k)
      case 0
      then show ?thesis using bin_nonempty [of n] by (cases "bin n") auto
    next
      case (Suc j)
      with 1(2) have "2 ^ j \<le> n div 2" by simp
      with 1(1) False have "j < length (bin (n div 2))" by simp
      with False Suc show ?thesis by (simp add: bin_step)
    qed
  qed
qed

lemma format_08b_digits: "list_all (\<lambda>d. d = 48 \<or> d = 49) (format_08b n)"
  using bin_digits [of n] by (auto simp: format_08b_def list_all_iff)

lemma length_format_08b: "length (format_08b n) = max 8 (length (bin n))"
  by (simp add: format_08b_def)

lemma length_format_08b_byte: "n \<le> 255 \<Longrightarrow> length (format_08b n) = 8"
  using length_bin_le [of n 8] by (simp add: length_format_08b)

lemma length_format_08b_big: "255 < n \<Longrightarrow> 8 < length (format_08b n)"
  using length_bin_gt [of 8 n] by (simp add: length_format_08b)

lemma py_int2_format_08b: "py_int2 (format_08b n) = Some n"
proof -
  have "format_08b n \<noteq> []" using bin_nonempty [of n] by (simp add: format_08b_def)
  moreover have "foldl (\<lambda>acc d. 2 * acc + (d - 48)) 0 (format_08b n) = n"
    by (simp only: format_08b_def bits_value_zeros bits_value_bin)
  ultimately show ?thesis using format_08b_digits [of n] by (simp add: py_int2_def)
qed

subsection \<open>The zero-width codec\<close>

lemma bits_value_less: "list_all (\<lambda>d. d = 48 \<or> d = 49) ds \<Longrightarrow> bits_value ds < 2 ^ length ds"
proof (induction ds rule: rev_induct)
  case Nil
  show ?case by (simp add: bits_value_def)
next
  case (snoc d ds)
  then have "bits_value ds < 2 ^ length ds" and "d - 48 \<le> 1" by auto
  then show ?case by (simp add: bits_value_snoc)
qed

lemma py_int2_byte: "py_int2 byte = Some n \<Longrightarrow> length byte = 8 \<Longrightarrow> n \<le> 255"
proof -
  assume a: "py_int2 byte = Some n" and l: "length byte = 8"
  from a have d: "list_all (\<lambda>d. d = 48 \<or> d = 49) byte" and n: "n = bits_value byte"
    by (auto simp: py_int2_def bits_value_def split: if_splits)
  from bits_value_less [OF d] l n show ?thesis by simp
qed

lemma loop_step:
  "i < length bs \<Longrightarrow>
   decode_zero_width_loop bs i acc =
     decode_zero_width_loop bs (i + 8)
       (if length (take 8 (drop i bs)) = 8 then
          (case py_int2 (take 8 (drop i bs)) of
             None \<Rightarrow> acc
           | Some n \<Rightarrow> (case py_chr n of None \<Rightarrow> acc | Some ch \<Rightarrow> acc @ [ch]))
        else acc)"
  by (subst decode_zero_width_loop.simps) (simp add: Let_def)

lemma loop_stop: "\<not> i < length bs \<Longrightarrow> decode_zero_width_loop bs i acc = acc"
  by (subst decode_zero_width_loop.simps) simp

lemma loop_bound:
  "list_all (\<lambda>c. c \<le> 0xFF) acc \<Longrightarrow> list_all (\<lambda>c. c \<le> 0xFF) (decode_zero_width_loop bs i acc)"
proof (induction bs i acc rule: decode_zero_width_loop.induct)
  case (1 bs i acc)
  show ?case
  proof (cases "i < length bs")
    case False
    with 1(2) show ?thesis by (simp add: loop_stop)
  next
    case True
    let ?byte = "take 8 (drop i bs)"
    let ?acc' = "if length ?byte = 8 then
          (case py_int2 ?byte of
             None \<Rightarrow> acc
           | Some n \<Rightarrow> (case py_chr n of None \<Rightarrow> acc | Some ch \<Rightarrow> acc @ [ch]))
        else acc"
    have "list_all (\<lambda>c. c \<le> 0xFF) ?acc'"
      using 1(2) by (auto simp: py_chr_def dest: py_int2_byte split: option.splits if_splits)
    with 1(1) [OF True refl] have "list_all (\<lambda>c. c \<le> 0xFF) (decode_zero_width_loop bs (i + 8) ?acc')"
      by simp
    with True show ?thesis by (simp only: loop_step)
  qed
qed

lemma loop_roundtrip:
  "list_all (\<lambda>c. c \<le> 255) s \<Longrightarrow>
   decode_zero_width_loop (pre @ concat (map format_08b s)) (length pre) acc = acc @ s"
proof (induction s arbitrary: pre acc)
  case Nil
  show ?case by (simp add: loop_stop)
next
  case (Cons c s)
  then have c: "c \<le> 255" and s: "list_all (\<lambda>c. c \<le> 255) s" by auto
  let ?bs = "pre @ concat (map format_08b (c # s))"
  have len: "length (format_08b c) = 8" using c by (rule length_format_08b_byte)
  have byte: "take 8 (drop (length pre) ?bs) = format_08b c" using len by simp
  have lt: "length pre < length ?bs" using len by simp
  have chr: "py_chr c = Some c" using c by (simp add: py_chr_def)
  have "decode_zero_width_loop ?bs (length pre) acc =
        decode_zero_width_loop ?bs (length pre + 8) (acc @ [c])"
    by (simp only: loop_step [OF lt] byte len py_int2_format_08b chr if_True option.case
        refl simp_thms)
  also have "\<dots> = decode_zero_width_loop ((pre @ format_08b c) @ concat (map format_08b s))
                     (length (pre @ format_08b c)) (acc @ [c])"
    using len by simp
  also have "\<dots> = (acc @ [c]) @ s" using s by (rule Cons.IH)
  finally show ?case by simp
qed

lemma decode_bits_append:
  "concat (map (get_or_empty ZERO_WIDTH_DECODE) (xs @ ys)) =
   concat (map (get_or_empty ZERO_WIDTH_DECODE) xs) @ concat (map (get_or_empty ZERO_WIDTH_DECODE) ys)"
  by simp

lemma decode_bits_free:
  "carrier_free (str ''zero-width'') v \<Longrightarrow> concat (map (get_or_empty ZERO_WIDTH_DECODE) v) = []"
  by (induction v) (auto simp: carrier_free_def is_carrier_zw get_decode)

lemma decode_bits_carrier:
  "list_all (\<lambda>d. d = 48 \<or> d = 49) ds \<Longrightarrow>
   concat (map (get_or_empty ZERO_WIDTH_DECODE) (concat (map (get_or_empty ZERO_WIDTH_MAP) ds))) = ds"
  by (induction ds) (auto simp: get_decode get_map)

lemma digits_concat: "list_all (\<lambda>d. d = 48 \<or> d = 49) (concat (map format_08b s))"
  using format_08b_digits by (induction s) auto

lemma decode_bits_encode:
  "concat (map (get_or_empty ZERO_WIDTH_DECODE) (encode_zero_width s)) = concat (map format_08b s)"
  by (simp only: encode_zero_width_def Let_def decode_bits_carrier [OF digits_concat])

lemma decode_zero_width_splice:
  assumes "carrier_free (str ''zero-width'') a" "carrier_free (str ''zero-width'') b"
    and "list_all (\<lambda>c. c \<le> 255) s"
  shows "decode_zero_width (a @ encode_zero_width s @ b) = s"
proof -
  have "concat (map (get_or_empty ZERO_WIDTH_DECODE) (a @ encode_zero_width s @ b)) =
        [] @ concat (map format_08b s)"
    by (simp only: decode_bits_append decode_bits_free [OF assms(1)] decode_bits_free [OF assms(2)]
        decode_bits_encode append_Nil append_Nil2)
  then have "decode_zero_width (a @ encode_zero_width s @ b) =
        decode_zero_width_loop ([] @ concat (map format_08b s)) (length ([]::ustring)) []"
    by (simp add: decode_zero_width_def)
  also have "\<dots> = [] @ s" using assms(3) by (rule loop_roundtrip)
  finally show ?thesis by simp
qed

lemma decode_zero_width_bound: "list_all (\<lambda>c. c \<le> 0xFF) (decode_zero_width t)"
  by (simp add: decode_zero_width_def loop_bound)

lemma decode_zero_width_free:
  "carrier_free (str ''zero-width'') v \<Longrightarrow> decode_zero_width v = []"
  by (simp add: decode_zero_width_def decode_bits_free loop_stop)

lemma encode_zero_width_chars:
  "list_all (\<lambda>c. c = 0x200B \<or> c = 0x200C) (encode_zero_width s)"
proof -
  have "list_all (\<lambda>c. c = 0x200B \<or> c = 0x200C) (concat (map (get_or_empty ZERO_WIDTH_MAP) ds))" for ds
    by (induction ds) (auto simp: get_map)
  then show ?thesis by (simp add: encode_zero_width_def)
qed

lemma strip_encode_zero_width: "strip_carrier (str ''zero-width'') (encode_zero_width s) = []"
  using encode_zero_width_chars [of s]
  by (auto simp: strip_carrier_def is_carrier_zw list_all_iff filter_empty_conv)

end
